theory Spec2Isabelle
  imports Main "HOL-Library.Countable"
begin

section \<open>Sparse Merkle tree of package multilevelmktree (sparse.go)\<close>

text \<open>
  Field elements are Go \<^verbatim>\<open>*big.Int\<close> values, modelled as \<^typ>\<open>int\<close>. The Poseidon
  hash \<^verbatim>\<open>poseidon.Hash\<close> belongs to an external library; every function that calls it
  takes it as the parameter \<open>H\<close>. The source drops the error result of every call
  (\<^verbatim>\<open>h, _ = poseidon.Hash(...)\<close>), so \<open>H\<close> stands for the hash on inputs it accepts
  (one to sixteen elements of the field), where it returns a non-nil element. A nil
  \<^verbatim>\<open>*big.Int\<close> and a nil \<^verbatim>\<open>Leaves\<close> map are outside the model: the constructor
  allocates the map, and the integers come from the callers and from the hash.
\<close>

type_synonym hash = "int list \<Rightarrow> int"

text \<open>Run-time panics of the Go code that the model keeps as values.\<close>

datatype panic =
    SliceBoundsOutOfRange
  | NilPointerDereference
  | IndexOutOfRange
  | MakeSliceLenOutOfRange

text \<open>The only error value built by the package: \<^verbatim>\<open>fmt.Errorf("no leaf exists at key: %s", key)\<close>.\<close>

datatype error = Errorf string

subsection \<open>Data model\<close>

text \<open>
  \<^verbatim>\<open>type MerkleNode struct { Left *MerkleNode; Right *MerkleNode; Data *big.Int }\<close>
  A nil child pointer is \<open>None\<close>.
\<close>

datatype MerkleNode =
  MerkleNode (Left: "MerkleNode option") (Right: "MerkleNode option") (Data: int)

text \<open>
  \<^verbatim>\<open>type SparseMerkleTree struct { Root *MerkleNode; Depth int; Leaves map[string]*big.Int }\<close>
\<close>

record SparseMerkleTree =
  Root :: "MerkleNode option"
  Depth :: int
  Leaves :: "string \<rightharpoonup> int"

text \<open>\<^verbatim>\<open>type MerklePathItem struct { SiblingHash *big.Int; IsRight bool }\<close>\<close>

record MerklePathItem =
  SiblingHash :: int
  IsRight :: bool

subsection \<open>Empty-subtree hashes\<close>

text \<open>\<^verbatim>\<open>var zeroLeaf, _ = poseidon.Hash([]*big.Int{big.NewInt(0)})\<close>\<close>

definition zeroLeaf :: "hash \<Rightarrow> int" where
  "zeroLeaf H = H [0]"

text \<open>
  The loop of \<^verbatim>\<open>getHashEmptyForDepth\<close>:
  \<^verbatim>\<open>for i := 0; i < depth; i++ { h, _ = poseidon.Hash([]*big.Int{h, h}) }\<close>
\<close>

function getHashEmptyForDepth_loop :: "hash \<Rightarrow> int \<Rightarrow> int \<Rightarrow> int \<Rightarrow> int" where
  "getHashEmptyForDepth_loop H depth i h =
     (if i < depth then getHashEmptyForDepth_loop H depth (i + 1) (H [h, h]) else h)"
  by pat_completeness auto
termination
  by (relation "measure (\<lambda>(H, depth, i, h). nat (depth - i))") auto

declare getHashEmptyForDepth_loop.simps [simp del]

definition getHashEmptyForDepth :: "hash \<Rightarrow> int \<Rightarrow> int" where
  "getHashEmptyForDepth H depth = getHashEmptyForDepth_loop H depth 0 (zeroLeaf H)"

subsection \<open>Construction\<close>

definition NewSparseMerkleTree :: "hash \<Rightarrow> int \<Rightarrow> SparseMerkleTree" where
  "NewSparseMerkleTree H depth =
     (let emptyLeaves = Map.empty;
          root = MerkleNode None None (getHashEmptyForDepth H depth)
      in \<lparr>Root = Some root, Depth = depth, Leaves = emptyLeaves\<rparr>)"

subsection \<open>Children and key bits\<close>

text \<open>
  \<^verbatim>\<open>getLeftChild\<close> and \<^verbatim>\<open>getRightChild\<close> on a non-nil receiver: a nil child is
  replaced by a fresh childless node whose commitment is \<open>getHashEmptyForDepth depth\<close>
  for the argument \<open>depth\<close> that the caller passes.
\<close>

definition getLeftChild :: "hash \<Rightarrow> MerkleNode \<Rightarrow> int \<Rightarrow> MerkleNode" where
  "getLeftChild H node depth =
     (case Left node of
        None \<Rightarrow> MerkleNode None None (getHashEmptyForDepth H depth)
      | Some l \<Rightarrow> l)"

definition getRightChild :: "hash \<Rightarrow> MerkleNode \<Rightarrow> int \<Rightarrow> MerkleNode" where
  "getRightChild H node depth =
     (case Right node of
        None \<Rightarrow> MerkleNode None None (getHashEmptyForDepth H depth)
      | Some r \<Rightarrow> r)"

definition hashChildren :: "hash \<Rightarrow> MerkleNode option \<Rightarrow> MerkleNode option \<Rightarrow> int \<Rightarrow> int" where
  "hashChildren H left right depth =
     (let leftData = getHashEmptyForDepth H (depth - 1);
          rightData = getHashEmptyForDepth H (depth - 1);
          leftData = (case left of Some l \<Rightarrow> Data l | None \<Rightarrow> leftData);
          rightData = (case right of Some r \<Rightarrow> Data r | None \<Rightarrow> rightData)
      in H [leftData, rightData])"

text \<open>
  \<^verbatim>\<open>strconv.Atoi\<close> on a string of one byte, with the error dropped as the source does
  (\<^verbatim>\<open>i, _ := strconv.Atoi(...)\<close>): a decimal digit gives its value, any other byte
  (a sign alone included) gives 0.
\<close>

definition Atoi_byte :: "char \<Rightarrow> int" where
  "Atoi_byte c =
     (let n = (of_char c :: nat) in if 48 \<le> n \<and> n \<le> 57 then int n - 48 else 0)"

text \<open>
  \<^verbatim>\<open>getPathBit\<close>: the empty key reads as 0 at every depth; otherwise the slice
  \<^verbatim>\<open>key[depth : depth+1]\<close> panics when it leaves the string.
\<close>

definition getPathBit :: "string \<Rightarrow> int \<Rightarrow> panic + int" where
  "getPathBit key depth =
     (if length key = 0 then Inr 0
      else if depth < 0 \<or> int (length key) < depth + 1 then Inl SliceBoundsOutOfRange
      else Inr (Atoi_byte (key ! nat depth)))"

subsection \<open>Insertion\<close>

text \<open>
  \<^verbatim>\<open>insertIntoNode\<close> recurses until \<^verbatim>\<open>depth == maxDepth\<close>; nothing in the source bounds
  the recursion otherwise, so the model is a partial function in the option monad:
  \<open>None\<close> is a recursion that never returns, \<open>Some (Inl p)\<close> a panic, \<open>Some (Inr n)\<close>
  the returned node. The node is mutated in place in the source only after the
  recursive call has returned, so a panic leaves the tree as it was.
\<close>

partial_function (option) insertIntoNode ::
  "hash \<Rightarrow> MerkleNode option \<Rightarrow> string \<Rightarrow> int \<Rightarrow> int \<Rightarrow> int \<Rightarrow> (panic + MerkleNode) option" where
  "insertIntoNode H node key val depth maxDepth =
     (let node = (case node of
                    None \<Rightarrow> MerkleNode None None (getHashEmptyForDepth H (maxDepth - depth))
                  | Some n \<Rightarrow> n)
      in if depth = maxDepth then Some (Inr (MerkleNode None None val))
         else (case getPathBit key depth of
                 Inl p \<Rightarrow> Some (Inl p)
               | Inr pathBit \<Rightarrow>
                   if pathBit = 0 then
                     Option.bind
                       (insertIntoNode H (Some (getLeftChild H node (depth + 1))) key val
                          (depth + 1) maxDepth)
                       (\<lambda>r. case r of
                              Inl p \<Rightarrow> Some (Inl p)
                            | Inr l \<Rightarrow>
                                Some (Inr (MerkleNode (Some l) (Right node)
                                  (hashChildren H (Some l) (Right node) (maxDepth - depth)))))
                   else
                     Option.bind
                       (insertIntoNode H (Some (getRightChild H node (depth + 1))) key val
                          (depth + 1) maxDepth)
                       (\<lambda>r. case r of
                              Inl p \<Rightarrow> Some (Inl p)
                            | Inr r' \<Rightarrow>
                                Some (Inr (MerkleNode (Left node) (Some r')
                                  (hashChildren H (Left node) (Some r') (maxDepth - depth)))))))"

declare insertIntoNode.simps [code]

text \<open>
  \<^verbatim>\<open>Insert\<close> writes \<^verbatim>\<open>smt.Leaves[key] = value\<close> first and then replaces the root. The
  result is the panic (if any) together with the tree as the call leaves it: after a
  panic the key is already recorded and the root is the old one.
\<close>

definition Insert ::
  "hash \<Rightarrow> SparseMerkleTree \<Rightarrow> string \<Rightarrow> int \<Rightarrow> (panic option \<times> SparseMerkleTree) option" where
  "Insert H smt key val =
     (let smt = smt\<lparr>Leaves := (Leaves smt)(key \<mapsto> val)\<rparr>
      in Option.bind (insertIntoNode H (Root smt) key val 0 (Depth smt))
           (\<lambda>r. case r of
                  Inl p \<Rightarrow> Some (Some p, smt)
                | Inr root \<Rightarrow> Some (None, smt\<lparr>Root := Some root\<rparr>)))"

subsection \<open>Merkle path generation\<close>

text \<open>
  The loop of \<^verbatim>\<open>GenerateMerklePath\<close>,
  \<^verbatim>\<open>for depth := 0; depth < smt.Depth; depth++ { ... path[depth] = ...; current = ... }\<close>,
  with the slice \<open>path\<close> of item pointers (nil is \<open>None\<close>) and the node pointer
  \<open>current\<close> passed as state. In an iteration the key bit is read first, then the
  receiver \<open>current\<close> is dereferenced, then the slice element is assigned.
\<close>

function GenerateMerklePath_loop ::
  "hash \<Rightarrow> int \<Rightarrow> string \<Rightarrow> int \<Rightarrow> MerkleNode option \<Rightarrow> MerklePathItem option list
     \<Rightarrow> panic + MerklePathItem option list" where
  "GenerateMerklePath_loop H smtDepth key depth current path =
     (if depth < smtDepth then
        (case getPathBit key depth of
           Inl p \<Rightarrow> Inl p
         | Inr pathBit \<Rightarrow>
             (case current of
                None \<Rightarrow> Inl NilPointerDereference
              | Some cur \<Rightarrow>
                  if depth < 0 \<or> int (length path) \<le> depth then Inl IndexOutOfRange
                  else if pathBit = 0 then
                    GenerateMerklePath_loop H smtDepth key (depth + 1)
                      (Some (getLeftChild H cur (depth + 1)))
                      (path[nat depth := Some \<lparr>SiblingHash = Data (getRightChild H cur (depth + 1)),
                                               IsRight = True\<rparr>])
                  else
                    GenerateMerklePath_loop H smtDepth key (depth + 1)
                      (Some (getRightChild H cur (depth + 1)))
                      (path[nat depth := Some \<lparr>SiblingHash = Data (getLeftChild H cur (depth + 1)),
                                               IsRight = False\<rparr>])))
      else Inr path)"
  by pat_completeness auto
termination
  by (relation "measure (\<lambda>(H, smtDepth, key, depth, current, path). nat (smtDepth - depth))") auto

declare GenerateMerklePath_loop.simps [simp del]

text \<open>
  \<^verbatim>\<open>GenerateMerklePath\<close>: the membership test on \<^verbatim>\<open>smt.Leaves\<close>, then
  \<^verbatim>\<open>make([]*MerklePathItem, smt.Depth)\<close> (which panics on a negative length), the walk,
  and the in-place reversal of the slice, written \<open>rev\<close>.
\<close>

definition GenerateMerklePath ::
  "hash \<Rightarrow> SparseMerkleTree \<Rightarrow> string \<Rightarrow> panic + (error + MerklePathItem option list)" where
  "GenerateMerklePath H smt key =
     (case Leaves smt key of
        None \<Rightarrow> Inr (Inl (Errorf (''no leaf exists at key: '' @ key)))
      | Some _ \<Rightarrow>
          if Depth smt < 0 then Inl MakeSliceLenOutOfRange
          else (case GenerateMerklePath_loop H (Depth smt) key 0 (Root smt)
                       (replicate (nat (Depth smt)) None) of
                  Inl p \<Rightarrow> Inl p
                | Inr path \<Rightarrow> Inr (Inr (rev path))))"

subsection \<open>Path verification\<close>

text \<open>
  The loop of \<^verbatim>\<open>VerifyMerklePath\<close> over the items of the path. The branch for a sibling
  on the right also prints a line, \<^verbatim>\<open>fmt.Println("currentHash", currentHash, "siblingHash",
  siblingHash)\<close>; the printed pairs are collected in \<open>out\<close>. The result is what was
  printed, and the final hash or the panic of dereferencing a nil item.
\<close>

fun VerifyMerklePath_loop ::
  "hash \<Rightarrow> MerklePathItem option list \<Rightarrow> int \<Rightarrow> (int \<times> int) list
     \<Rightarrow> (int \<times> int) list \<times> (panic + int)" where
  "VerifyMerklePath_loop H [] currentHash out = (out, Inr currentHash)"
| "VerifyMerklePath_loop H (None # path) currentHash out = (out, Inl NilPointerDereference)"
| "VerifyMerklePath_loop H (Some item # path) currentHash out =
     (let siblingHash = SiblingHash item
      in if IsRight item then
           (let currentHash = H [currentHash, siblingHash]
            in VerifyMerklePath_loop H path currentHash (out @ [(currentHash, siblingHash)]))
         else VerifyMerklePath_loop H path (H [siblingHash, currentHash]) out)"

text \<open>
  \<^verbatim>\<open>VerifyMerklePath\<close> returns \<^verbatim>\<open>currentHash.Cmp(expectedRoot) == 0\<close>; the model pairs the
  printed lines with the returned boolean (or the panic).
\<close>

definition VerifyMerklePath ::
  "hash \<Rightarrow> int \<Rightarrow> MerklePathItem option list \<Rightarrow> int \<Rightarrow> (int \<times> int) list \<times> (panic + bool)" where
  "VerifyMerklePath H leafHash path expectedRoot =
     (case VerifyMerklePath_loop H path leafHash [] of
        (out, Inl p) \<Rightarrow> (out, Inl p)
      | (out, Inr currentHash) \<Rightarrow> (out, Inr (currentHash = expectedRoot)))"

subsection \<open>A concrete collision-free hash for evaluation\<close>

text \<open>
  Poseidon itself is not part of the repository. For evaluating the definitions on
  concrete inputs, \<open>encodeH\<close> is an injective stand-in: it codes the list of its
  arguments as one natural number.
\<close>

definition encodeH :: hash where
  "encodeH xs = int (list_encode (map int_encode xs))"

section \<open>Notions used to state the properties\<close>

subsection \<open>Keys and their bits\<close>

text \<open>
  A key of the data model: a string of exactly \<open>D\<close> characters, each \<^verbatim>\<open>'0'\<close> or \<^verbatim>\<open>'1'\<close>.
  Its bits, in order from the root: \<open>False\<close> is 0 (go left), \<open>True\<close> is 1 (go right).
\<close>

definition validKey :: "int \<Rightarrow> string \<Rightarrow> bool" where
  "validKey D key = (int (length key) = D \<and> list_all (\<lambda>c. c = CHR ''0'' \<or> c = CHR ''1'') key)"

definition keyBits :: "string \<Rightarrow> bool list" where
  "keyBits key = map (\<lambda>c. c = CHR ''1'') key"

text \<open>
  The directions that the code takes for an arbitrary string between levels \<open>depth\<close> and
  \<open>maxDepth\<close>, as \<open>getPathBit\<close> reads them when it does not panic: a byte goes right
  when it parses to a nonzero digit; the empty string goes left throughout.
\<close>

definition pathBits :: "string \<Rightarrow> int \<Rightarrow> int \<Rightarrow> bool list" where
  "pathBits key depth maxDepth =
     (if key = [] then replicate (nat (maxDepth - depth)) False
      else map (\<lambda>c. Atoi_byte c \<noteq> 0) (take (nat (maxDepth - depth)) (drop (nat depth) key)))"

text \<open>The well-formed key that the code treats like the given string in a tree of depth \<open>D\<close>.\<close>

definition canonicalKey :: "int \<Rightarrow> string \<Rightarrow> string" where
  "canonicalKey D key = map (\<lambda>b. if b then CHR ''1'' else CHR ''0'') (pathBits key 0 D)"

subsection \<open>Walking a tree\<close>

text \<open>The node reached from a node pointer by a list of directions; \<open>None\<close> when the walk
  leaves the materialized part of the tree.\<close>

fun nodeAt :: "MerkleNode option \<Rightarrow> bool list \<Rightarrow> MerkleNode option" where
  "nodeAt node [] = node"
| "nodeAt None (b # bs) = None"
| "nodeAt (Some n) (b # bs) = nodeAt (if b then Right n else Left n) bs"

text \<open>The materialized nodes at a given distance below a node pointer.\<close>

fun nodesAtLevel :: "MerkleNode option \<Rightarrow> nat \<Rightarrow> MerkleNode list" where
  "nodesAtLevel None n = []"
| "nodesAtLevel (Some node) 0 = [node]"
| "nodesAtLevel (Some node) (Suc n) = nodesAtLevel (Left node) n @ nodesAtLevel (Right node) n"

text \<open>The commitment of a subtree of height \<open>h\<close>: the node's \<open>Data\<close>, or the empty-subtree
  hash of that height when the subtree is virtual.\<close>

definition commitment :: "hash \<Rightarrow> MerkleNode option \<Rightarrow> nat \<Rightarrow> int" where
  "commitment H node h = (case node of None \<Rightarrow> getHashEmptyForDepth H (int h) | Some n \<Rightarrow> Data n)"

text \<open>The commitment at the leaf position that a list of directions leads to.\<close>

fun leafCommitment :: "hash \<Rightarrow> MerkleNode option \<Rightarrow> bool list \<Rightarrow> int" where
  "leafCommitment H node [] = commitment H node 0"
| "leafCommitment H None (b # bs) = getHashEmptyForDepth H 0"
| "leafCommitment H (Some n) (b # bs) = leafCommitment H (if b then Right n else Left n) bs"

text \<open>
  The invariant of the data model for a subtree of height \<open>h\<close>: every materialized node
  above the leaf level commits to the hash of its children's commitments.
\<close>

fun wfNode :: "hash \<Rightarrow> MerkleNode option \<Rightarrow> nat \<Rightarrow> bool" where
  "wfNode H None h = True"
| "wfNode H (Some n) 0 = True"
| "wfNode H (Some n) (Suc h) =
     (Data n = hashChildren H (Left n) (Right n) (int (Suc h))
      \<and> wfNode H (Left n) h \<and> wfNode H (Right n) h)"

definition wfTree :: "hash \<Rightarrow> SparseMerkleTree \<Rightarrow> bool" where
  "wfTree H smt = (0 \<le> Depth smt \<and> Root smt \<noteq> None \<and> wfNode H (Root smt) (nat (Depth smt)))"

text \<open>The trees that the constructor and a sequence of calls of \<open>Insert\<close> produce.\<close>

inductive reachable :: "hash \<Rightarrow> SparseMerkleTree \<Rightarrow> bool" for H :: hash where
  reachable_new: "0 \<le> D \<Longrightarrow> reachable H (NewSparseMerkleTree H D)"
| reachable_insert:
    "reachable H smt \<Longrightarrow> Insert H smt key val = Some (p, smt') \<Longrightarrow> reachable H smt'"

text \<open>Every sibling of the walk along a list of directions is a materialized node.\<close>

fun siblingsMaterialized :: "MerkleNode option \<Rightarrow> bool list \<Rightarrow> bool" where
  "siblingsMaterialized node [] = True"
| "siblingsMaterialized None (b # bs) = False"
| "siblingsMaterialized (Some n) (b # bs) =
     (if b then Left n \<noteq> None \<and> siblingsMaterialized (Right n) bs
      else Right n \<noteq> None \<and> siblingsMaterialized (Left n) bs)"

subsection \<open>Insertion and path generation along a list of directions\<close>

text \<open>
  What \<open>insertIntoNode\<close> computes when it neither panics nor diverges, by recursion on the
  directions left to follow; the height of a node is the number of directions left.
\<close>

fun insertBits :: "hash \<Rightarrow> MerkleNode option \<Rightarrow> bool list \<Rightarrow> int \<Rightarrow> MerkleNode" where
  "insertBits H node [] val = MerkleNode None None val"
| "insertBits H node (b # bs) val =
     (let l = (case node of None \<Rightarrow> None | Some n \<Rightarrow> Left n);
          r = (case node of None \<Rightarrow> None | Some n \<Rightarrow> Right n)
      in if b then
           (let r' = Some (insertBits H r bs val)
            in MerkleNode l r' (hashChildren H l r' (int (Suc (length bs)))))
         else
           (let l' = Some (insertBits H l bs val)
            in MerkleNode l' r (hashChildren H l' r (int (Suc (length bs))))))"

text \<open>
  The items that the loop of \<open>GenerateMerklePath\<close> records, root first, from a node at
  level \<open>depth\<close>.
\<close>

fun pathItems :: "hash \<Rightarrow> MerkleNode \<Rightarrow> bool list \<Rightarrow> int \<Rightarrow> MerklePathItem list" where
  "pathItems H cur [] depth = []"
| "pathItems H cur (b # bs) depth =
     (if b then
        \<lparr>SiblingHash = Data (getLeftChild H cur (depth + 1)), IsRight = False\<rparr>
          # pathItems H (getRightChild H cur (depth + 1)) bs (depth + 1)
      else
        \<lparr>SiblingHash = Data (getRightChild H cur (depth + 1)), IsRight = True\<rparr>
          # pathItems H (getLeftChild H cur (depth + 1)) bs (depth + 1))"

subsection \<open>Verification as the specification words it\<close>

text \<open>
  Starting from the leaf value, each item in order replaces the current hash by
  \<open>H [current, sibling]\<close> when its flag marks the sibling on the right and by
  \<open>H [sibling, current]\<close> otherwise; the result is compared with the expected root.
\<close>

definition verifyStep :: "hash \<Rightarrow> int \<Rightarrow> MerklePathItem \<Rightarrow> int" where
  "verifyStep H current item =
     (if IsRight item then H [current, SiblingHash item] else H [SiblingHash item, current])"

definition verifyFold :: "hash \<Rightarrow> int \<Rightarrow> MerklePathItem list \<Rightarrow> int \<Rightarrow> bool" where
  "verifyFold H leaf_value items expected_root = (foldl (verifyStep H) leaf_value items = expected_root)"

section \<open>Properties\<close>

subsection \<open>Empty-subtree hashes\<close>

lemma getHashEmptyForDepth_loop_funpow:
  "i \<le> depth \<Longrightarrow>
     getHashEmptyForDepth_loop H depth i h = ((\<lambda>h. H [h, h]) ^^ nat (depth - i)) h"
proof (induction H depth i h rule: getHashEmptyForDepth_loop.induct)
  case (1 H depth i h)
  show ?case
  proof (cases "i < depth")
    case True
    then have n: "nat (depth - i) = Suc (nat (depth - (i + 1)))" by simp
    from True 1 show ?thesis
      by (subst getHashEmptyForDepth_loop.simps) (simp add: n funpow_Suc_right del: funpow.simps)
  next
    case False
    then show ?thesis
      by (subst getHashEmptyForDepth_loop.simps) simp
  qed
qed

lemma getHashEmptyForDepth_nonpos: "d \<le> 0 \<Longrightarrow> getHashEmptyForDepth H d = H [0]"
  unfolding getHashEmptyForDepth_def zeroLeaf_def
  by (subst getHashEmptyForDepth_loop.simps) simp

lemma getHashEmptyForDepth_pos:
  assumes "0 < d"
  shows "getHashEmptyForDepth H d =
           H [getHashEmptyForDepth H (d - 1), getHashEmptyForDepth H (d - 1)]"
proof -
  from assms have n: "nat d = Suc (nat (d - 1))" by simp
  from assms show ?thesis
    unfolding getHashEmptyForDepth_def
    by (simp add: getHashEmptyForDepth_loop_funpow n del: funpow.simps) simp
qed

lemma encodeH_inj: "inj encodeH"
  unfolding encodeH_def
  by (rule injI)
     (simp add: inj_eq[OF inj_list_encode] inj_eq[OF inj_int_encode]
        inj_map_eq_map[OF inj_int_encode])

lemmas encodeH_eval = encodeH_def int_encode_def sum_encode_def prod_encode_def triangle_def

lemma encodeH_empty0: "getHashEmptyForDepth encodeH 0 = 1"
  by (simp add: getHashEmptyForDepth_nonpos encodeH_eval)

lemma encodeH_empty1: "getHashEmptyForDepth encodeH 1 = 39"
  by (simp add: getHashEmptyForDepth_pos encodeH_empty0) (simp add: encodeH_eval)

lemma encodeH_empty2: "getHashEmptyForDepth encodeH 2 = 5244020"
  by (simp add: getHashEmptyForDepth_pos encodeH_empty1) (simp add: encodeH_eval)

text \<open>
  C4. \<open>getHashEmptyForDepth\<close> is a function of the depth (and of the hash) alone; at depth 0
  it is \<open>H [0]\<close>, and at every depth \<open>d > 0\<close> it is the hash of two copies of its value
  at depth \<open>d - 1\<close>.
\<close>

theorem C4_getHashEmptyForDepth_recurrence:
  "getHashEmptyForDepth H 0 = H [0]
   \<and> (\<forall>d. 0 < d \<longrightarrow>
         getHashEmptyForDepth H d =
           H [getHashEmptyForDepth H (d - 1), getHashEmptyForDepth H (d - 1)])"
  by (simp add: getHashEmptyForDepth_nonpos getHashEmptyForDepth_pos)

theorem C4_getHashEmptyForDepth_recurrence_witness:
  "(0::int) < 2
   \<and> getHashEmptyForDepth encodeH 0 = 1
   \<and> getHashEmptyForDepth encodeH 1 = 39
   \<and> getHashEmptyForDepth encodeH 2 = encodeH [39, 39]"
proof -
  note r = C4_getHashEmptyForDepth_recurrence [of encodeH]
  from r have e0: "getHashEmptyForDepth encodeH 0 = 1"
    by (simp add: encodeH_eval)
  from r have "getHashEmptyForDepth encodeH 1 =
      encodeH [getHashEmptyForDepth encodeH (1 - 1), getHashEmptyForDepth encodeH (1 - 1)]"
    by (metis zero_less_one)
  with e0 have e1: "getHashEmptyForDepth encodeH 1 = 39"
    by (simp add: encodeH_eval)
  have "(0::int) < 2" by simp
  with r have "getHashEmptyForDepth encodeH 2 =
      encodeH [getHashEmptyForDepth encodeH (2 - 1), getHashEmptyForDepth encodeH (2 - 1)]"
    by blast
  with e1 have e2: "getHashEmptyForDepth encodeH 2 = encodeH [39, 39]"
    by simp
  from e0 e1 e2 show ?thesis by simp
qed

subsection \<open>Construction\<close>

text \<open>
  C5. For a positive depth \<open>D\<close>, \<open>NewSparseMerkleTree D\<close> has a root node whose commitment is
  \<open>getHashEmptyForDepth D\<close>, keeps the depth, has an empty \<open>Leaves\<close> map, and has no
  materialized node at the leaf level \<open>D\<close> (the root has no children at all).
\<close>

theorem C5_NewSparseMerkleTree:
  assumes "0 < D"
  shows "Root (NewSparseMerkleTree H D) = Some (MerkleNode None None (getHashEmptyForDepth H D))
         \<and> Depth (NewSparseMerkleTree H D) = D
         \<and> Leaves (NewSparseMerkleTree H D) = Map.empty
         \<and> nodesAtLevel (Root (NewSparseMerkleTree H D)) (nat D) = []"
proof -
  from assms obtain m where m: "nat D = Suc m"
    by (cases "nat D") auto
  show ?thesis
    by (simp add: NewSparseMerkleTree_def m)
qed

theorem C5_NewSparseMerkleTree_witness:
  "(0::int) < 2
   \<and> Root (NewSparseMerkleTree encodeH 2) = Some (MerkleNode None None 5244020)
   \<and> Depth (NewSparseMerkleTree encodeH 2) = 2
   \<and> Leaves (NewSparseMerkleTree encodeH 2) = Map.empty
   \<and> nodesAtLevel (Root (NewSparseMerkleTree encodeH 2)) (nat 2) = []"
proof -
  have p: "(0::int) < 2" by simp
  from C5_NewSparseMerkleTree [OF p, of encodeH] p show ?thesis
    by (auto simp: encodeH_empty2)
qed

subsection \<open>Unknown keys\<close>

text \<open>
  C6. \<open>GenerateMerklePath\<close> returns an error exactly when the key has no entry in the
  \<open>Leaves\<close> map, whatever the shape of the tree; the error is the "no leaf exists"
  message, and in that case no path is returned.
\<close>

theorem C6_GenerateMerklePath_not_found:
  "((\<exists>e. GenerateMerklePath H smt key = Inr (Inl e)) \<longleftrightarrow> Leaves smt key = None)
   \<and> (Leaves smt key = None \<longrightarrow>
        GenerateMerklePath H smt key = Inr (Inl (Errorf (''no leaf exists at key: '' @ key)))
        \<and> (\<forall>path. GenerateMerklePath H smt key \<noteq> Inr (Inr path)))"
  by (auto simp: GenerateMerklePath_def split: option.splits sum.splits)

theorem C6_GenerateMerklePath_not_found_witness:
  "Leaves (NewSparseMerkleTree encodeH 1) ''0'' = None
   \<and> GenerateMerklePath encodeH (NewSparseMerkleTree encodeH 1) ''0''
       = Inr (Inl (Errorf ''no leaf exists at key: 0''))"
  using C6_GenerateMerklePath_not_found [of encodeH "NewSparseMerkleTree encodeH 1" "''0''"]
  by (simp add: NewSparseMerkleTree_def)

subsection \<open>Path verification\<close>

lemma VerifyMerklePath_loop_items:
  "snd (VerifyMerklePath_loop H (map Some items) currentHash out)
     = Inr (foldl (verifyStep H) currentHash items)"
  by (induction items arbitrary: currentHash out) (simp_all add: verifyStep_def Let_def)

text \<open>
  C8. \<open>VerifyMerklePath\<close> takes the leaf value, the path and the expected root only (and
  the hash): no tree. On a path of items it returns the comparison of the expected root
  with the left fold of the items from the leaf value, where an item whose flag marks
  the sibling on the right gives \<open>H [current, sibling]\<close> and any other item gives
  \<open>H [sibling, current]\<close>.
\<close>

theorem C8_VerifyMerklePath_fold:
  "snd (VerifyMerklePath H leaf_value (map Some items) expected_root)
     = Inr (verifyFold H leaf_value items expected_root)"
proof -
  obtain out r where l: "VerifyMerklePath_loop H (map Some items) leaf_value [] = (out, r)"
    by (cases "VerifyMerklePath_loop H (map Some items) leaf_value []")
  with VerifyMerklePath_loop_items [of H items leaf_value "[]"]
  have "r = Inr (foldl (verifyStep H) leaf_value items)" by simp
  with l show ?thesis
    by (simp add: VerifyMerklePath_def verifyFold_def)
qed

subsection \<open>Insertion follows the directions of the key\<close>

lemma insertBits_fresh:
  "insertBits H (Some (MerkleNode None None d)) bs val = insertBits H None bs val"
  by (cases bs) simp_all

lemma getPathBit_empty: "getPathBit [] depth = Inr 0"
  by (simp add: getPathBit_def)

lemma getPathBit_inside:
  "key \<noteq> [] \<Longrightarrow> 0 \<le> depth \<Longrightarrow> depth < int (length key) \<Longrightarrow>
     getPathBit key depth = Inr (Atoi_byte (key ! nat depth))"
  by (simp add: getPathBit_def)

lemma getPathBit_outside:
  "key \<noteq> [] \<Longrightarrow> int (length key) \<le> depth \<Longrightarrow> getPathBit key depth = Inl SliceBoundsOutOfRange"
  by (simp add: getPathBit_def)

lemma length_pathBits:
  "key = [] \<or> maxDepth \<le> int (length key) \<Longrightarrow> 0 \<le> depth \<Longrightarrow>
     length (pathBits key depth maxDepth) = nat (maxDepth - depth)"
  by (auto simp: pathBits_def)

lemma pathBits_done: "maxDepth \<le> depth \<Longrightarrow> pathBits key depth maxDepth = []"
  by (simp add: pathBits_def)

lemma pathBits_step:
  assumes "0 \<le> depth" "depth < maxDepth" "key = [] \<or> maxDepth \<le> int (length key)"
  shows "\<exists>pathBit. getPathBit key depth = Inr pathBit
           \<and> pathBits key depth maxDepth = (pathBit \<noteq> 0) # pathBits key (depth + 1) maxDepth"
proof (cases "key = []")
  case True
  from assms have "nat (maxDepth - depth) = Suc (nat (maxDepth - (depth + 1)))" by simp
  with True show ?thesis
    by (simp add: pathBits_def getPathBit_def)
next
  case False
  with assms have inside: "nat depth < length key" by simp
  from assms have n: "nat (maxDepth - depth) = Suc (nat (maxDepth - (depth + 1)))" by simp
  from assms have d: "nat (depth + 1) = Suc (nat depth)" by simp
  from inside have "drop (nat depth) key = key ! nat depth # drop (Suc (nat depth)) key"
    by (simp add: Cons_nth_drop_Suc)
  with False assms show ?thesis
    by (simp add: pathBits_def getPathBit_def n d)
qed

lemma insertIntoNode_insertBits:
  assumes "key = [] \<or> maxDepth \<le> int (length key)"
  shows "0 \<le> depth \<Longrightarrow> depth \<le> maxDepth \<Longrightarrow>
     insertIntoNode H node key val depth maxDepth
       = Some (Inr (insertBits H node (pathBits key depth maxDepth) val))"
proof (induction "nat (maxDepth - depth)" arbitrary: depth node)
  case 0
  then have "depth = maxDepth" by simp
  then show ?case
    by (subst insertIntoNode.simps) (simp add: pathBits_done)
next
  case (Suc n)
  then have lt: "depth < maxDepth" by simp
  from pathBits_step [OF Suc.prems(1) lt assms]
  obtain pathBit where pb: "getPathBit key depth = Inr pathBit"
    and bits: "pathBits key depth maxDepth = (pathBit \<noteq> 0) # pathBits key (depth + 1) maxDepth"
    by blast
  from Suc.hyps(2) have n: "n = nat (maxDepth - (depth + 1))" by simp
  from Suc.prems lt have le: "0 \<le> depth + 1" "depth + 1 \<le> maxDepth" by simp_all
  note IH = Suc.hyps(1) [OF n le]
  from assms le have len: "1 + int (length (pathBits key (depth + 1) maxDepth)) = maxDepth - depth"
    by (simp add: length_pathBits)
  from lt show ?case
    by (subst insertIntoNode.simps)
       (simp add: pb bits IH len getLeftChild_def getRightChild_def insertBits_fresh Let_def
             split: option.splits)
qed

lemma insertIntoNode_short_key:
  assumes "key \<noteq> []" "int (length key) < maxDepth"
  shows "0 \<le> depth \<Longrightarrow> depth \<le> int (length key) \<Longrightarrow>
     insertIntoNode H node key val depth maxDepth = Some (Inl SliceBoundsOutOfRange)"
proof (induction "nat (int (length key) - depth)" arbitrary: depth node)
  case 0
  with assms have "depth \<noteq> maxDepth" "int (length key) \<le> depth" by simp_all
  with assms show ?case
    by (subst insertIntoNode.simps) (simp add: getPathBit_outside)
next
  case (Suc n)
  with assms have ne: "depth \<noteq> maxDepth" and inside: "depth < int (length key)" by simp_all
  from Suc.hyps(2) have n: "n = nat (int (length key) - (depth + 1))" by simp
  from Suc.prems inside have le: "0 \<le> depth + 1" "depth + 1 \<le> int (length key)" by simp_all
  note IH = Suc.hyps(1) [OF n le]
  from ne show ?case
    by (subst insertIntoNode.simps)
       (simp add: getPathBit_inside [OF assms(1) Suc.prems(1) inside] IH Let_def)
qed

lemma Insert_accepts:
  assumes "0 \<le> Depth smt" "key = [] \<or> Depth smt \<le> int (length key)"
  shows "Insert H smt key val =
     Some (None, smt\<lparr>Leaves := (Leaves smt)(key \<mapsto> val),
                      Root := Some (insertBits H (Root smt) (pathBits key 0 (Depth smt)) val)\<rparr>)"
  using assms by (simp add: Insert_def insertIntoNode_insertBits)

lemma Insert_short_key:
  assumes "0 \<le> Depth smt" "key \<noteq> []" "int (length key) < Depth smt"
  shows "Insert H smt key val =
     Some (Some SliceBoundsOutOfRange, smt\<lparr>Leaves := (Leaves smt)(key \<mapsto> val)\<rparr>)"
  using assms by (simp add: Insert_def insertIntoNode_short_key)

lemma Atoi_byte_bits: "Atoi_byte CHR ''0'' = 0" "Atoi_byte CHR ''1'' = 1"
  by (simp_all add: Atoi_byte_def)

lemma validKey_nonneg: "validKey D key \<Longrightarrow> 0 \<le> D"
  by (auto simp: validKey_def)

lemma validKey_length: "validKey D key \<Longrightarrow> D \<le> int (length key)"
  by (simp add: validKey_def)

lemma validKey_nat: "validKey D key \<Longrightarrow> nat D = length key"
  by (auto simp: validKey_def)

lemma validKey_chars: "validKey D key \<Longrightarrow> \<forall>c \<in> set key. c = CHR ''0'' \<or> c = CHR ''1''"
  by (simp add: validKey_def list_all_iff)

lemma Atoi_byte_binary:
  "c = CHR ''0'' \<or> c = CHR ''1'' \<Longrightarrow> (Atoi_byte c \<noteq> 0) = (c = CHR ''1'')"
  by (elim disjE) (simp_all add: Atoi_byte_bits)

lemma pathBits_validKey:
  assumes "validKey D key"
  shows "pathBits key 0 D = keyBits key"
proof -
  have "map (\<lambda>c. Atoi_byte c \<noteq> 0) key = map (\<lambda>c. c = CHR ''1'') key"
    using validKey_chars [OF assms] by (intro map_cong refl Atoi_byte_binary) blast
  then show ?thesis
    by (simp add: pathBits_def keyBits_def validKey_nat [OF assms])
qed

lemma binary_char_eq:
  "c1 = CHR ''0'' \<or> c1 = CHR ''1'' \<Longrightarrow> c2 = CHR ''0'' \<or> c2 = CHR ''1'' \<Longrightarrow>
     (c1 = CHR ''1'') = (c2 = CHR ''1'') \<Longrightarrow> c1 = c2"
  by (elim disjE) simp_all

lemma keyBits_inj_lists:
  "length k1 = length k2 \<Longrightarrow>
   list_all (\<lambda>c. c = CHR ''0'' \<or> c = CHR ''1'') k1 \<Longrightarrow>
   list_all (\<lambda>c. c = CHR ''0'' \<or> c = CHR ''1'') k2 \<Longrightarrow>
   keyBits k1 = keyBits k2 \<Longrightarrow> k1 = k2"
proof (induction k1 k2 rule: list_induct2)
  case Nil
  then show ?case by simp
next
  case (Cons c1 k1 c2 k2)
  from Cons.prems have "c1 = CHR ''0'' \<or> c1 = CHR ''1''" "c2 = CHR ''0'' \<or> c2 = CHR ''1''"
    "(c1 = CHR ''1'') = (c2 = CHR ''1'')"
    by (simp_all add: keyBits_def)
  then have "c1 = c2" by (rule binary_char_eq)
  moreover from Cons.prems have "k1 = k2"
    by (intro Cons.IH) (simp_all add: keyBits_def)
  ultimately show ?case by simp
qed

lemma keyBits_inj:
  assumes "validKey D k1" "validKey D k2" "keyBits k1 = keyBits k2"
  shows "k1 = k2"
proof -
  from assms(1,2) have "length k1 = length k2"
    by (simp add: validKey_def)
  moreover from assms(1) have "list_all (\<lambda>c. c = CHR ''0'' \<or> c = CHR ''1'') k1"
    by (simp add: validKey_def)
  moreover from assms(2) have "list_all (\<lambda>c. c = CHR ''0'' \<or> c = CHR ''1'') k2"
    by (simp add: validKey_def)
  ultimately show ?thesis
    using assms(3) by (rule keyBits_inj_lists)
qed

lemma nodeAt_insertBits:
  "nodeAt (Some (insertBits H node bs val)) bs = Some (MerkleNode None None val)"
  by (induction bs arbitrary: node) (simp_all add: Let_def)

lemma insertBits_commute:
  "length bs1 = length bs2 \<Longrightarrow> bs1 \<noteq> bs2 \<Longrightarrow>
     insertBits H (Some (insertBits H node bs1 v1)) bs2 v2
       = insertBits H (Some (insertBits H node bs2 v2)) bs1 v1"
proof (induction bs1 bs2 arbitrary: node rule: list_induct2)
  case Nil
  then show ?case by simp
next
  case (Cons b1 bs1 b2 bs2)
  show ?case
  proof (cases "b1 = b2")
    case True
    with Cons.prems have ne: "bs1 \<noteq> bs2" by simp
    from True Cons.hyps Cons.IH [OF ne] show ?thesis
      by (simp add: Let_def)
  next
    case False
    with Cons.hyps show ?thesis
      by (cases b1; cases b2) (simp_all add: Let_def)
  qed
qed

subsection \<open>Path generation follows the directions of the key\<close>

lemma GenerateMerklePath_loop_pathItems:
  assumes "key = [] \<or> D \<le> int (length key)"
  shows "0 \<le> depth \<Longrightarrow> depth \<le> D \<Longrightarrow> length path = nat D \<Longrightarrow>
     GenerateMerklePath_loop H D key depth (Some cur) path
       = Inr (take (nat depth) path @ map Some (pathItems H cur (pathBits key depth D) depth))"
proof (induction "nat (D - depth)" arbitrary: depth cur path)
  case 0
  then have "depth = D" by simp
  with 0 show ?case
    by (subst GenerateMerklePath_loop.simps) (simp add: pathBits_done)
next
  case (Suc n)
  then have lt: "depth < D" by simp
  from pathBits_step [OF Suc.prems(1) lt assms]
  obtain pathBit where pb: "getPathBit key depth = Inr pathBit"
    and bits: "pathBits key depth D = (pathBit \<noteq> 0) # pathBits key (depth + 1) D"
    by blast
  from Suc.hyps(2) have n: "n = nat (D - (depth + 1))" by simp
  from Suc.prems lt have le: "0 \<le> depth + 1" "depth + 1 \<le> D" by simp_all
  from Suc.prems lt have inside: "nat depth < length path" by simp
  from Suc.prems have d: "nat (depth + 1) = Suc (nat depth)" by simp
  have upd: "take (nat (depth + 1)) (path[nat depth := x]) = take (nat depth) path @ [x]" for x
    using inside by (simp add: d take_Suc_conv_app_nth)
  have IH: "GenerateMerklePath_loop H D key (depth + 1) (Some cur') (path[nat depth := x])
      = Inr (take (nat depth) path @ [x]
             @ map Some (pathItems H cur' (pathBits key (depth + 1) D) (depth + 1)))" for cur' x
    using Suc.hyps(1) [OF n le, of "path[nat depth := x]" cur'] Suc.prems(3)
    by (simp add: upd)
  from lt Suc.prems inside show ?case
    by (subst GenerateMerklePath_loop.simps) (simp add: pb bits IH)
qed

lemma GenerateMerklePath_pathItems:
  assumes "Leaves smt key \<noteq> None" "0 \<le> Depth smt" "Root smt = Some root"
    "key = [] \<or> Depth smt \<le> int (length key)"
  shows "GenerateMerklePath H smt key
     = Inr (Inr (map Some (rev (pathItems H root (pathBits key 0 (Depth smt)) 0))))"
  using assms
  by (auto simp: GenerateMerklePath_def GenerateMerklePath_loop_pathItems rev_map)

text \<open>
  C3. For a key of the tree's depth made of \<^verbatim>\<open>'0'\<close> and \<^verbatim>\<open>'1'\<close>, \<open>Insert\<close> returns
  normally, and in the resulting tree the node reached from the root along the key's
  bits is a childless node whose commitment is the inserted value itself.
\<close>

theorem C3_Insert_leaf_holds_raw_value:
  assumes "validKey (Depth smt) key"
  shows "\<exists>smt'. Insert H smt key val = Some (None, smt')
           \<and> nodeAt (Root smt') (keyBits key) = Some (MerkleNode None None val)"
proof -
  from assms have "0 \<le> Depth smt" "key = [] \<or> Depth smt \<le> int (length key)"
    by (simp_all add: validKey_nonneg validKey_length)
  then have "Insert H smt key val =
     Some (None, smt\<lparr>Leaves := (Leaves smt)(key \<mapsto> val),
                      Root := Some (insertBits H (Root smt) (pathBits key 0 (Depth smt)) val)\<rparr>)"
    by (rule Insert_accepts)
  with assms show ?thesis
    by (simp add: pathBits_validKey nodeAt_insertBits)
qed

theorem C3_Insert_leaf_holds_raw_value_witness:
  "validKey (Depth (NewSparseMerkleTree encodeH 2)) ''01''
   \<and> (\<exists>smt'. Insert encodeH (NewSparseMerkleTree encodeH 2) ''01'' 5 = Some (None, smt')
           \<and> nodeAt (Root smt') [False, True] = Some (MerkleNode None None 5))"
proof -
  have v: "validKey (Depth (NewSparseMerkleTree encodeH 2)) ''01''"
    by (simp add: validKey_def NewSparseMerkleTree_def)
  from C3_Insert_leaf_holds_raw_value [OF v, of encodeH 5] v show ?thesis
    by (simp add: keyBits_def)
qed

text \<open>
  C10. For two distinct keys of the tree's depth made of \<^verbatim>\<open>'0'\<close> and \<^verbatim>\<open>'1'\<close>, inserting
  the first and then the second leaves the tree (root, depth and \<open>Leaves\<close> map) in the
  same state as inserting the second and then the first; all four calls return normally.
\<close>

theorem C10_Insert_order_irrelevant:
  assumes "validKey (Depth smt) k1" "validKey (Depth smt) k2" "k1 \<noteq> k2"
  shows "\<exists>ta tb t'. Insert H smt k1 v1 = Some (None, ta) \<and> Insert H ta k2 v2 = Some (None, t')
           \<and> Insert H smt k2 v2 = Some (None, tb) \<and> Insert H tb k1 v1 = Some (None, t')"
proof -
  let ?D = "Depth smt"
  define ta where "ta = smt\<lparr>Leaves := (Leaves smt)(k1 \<mapsto> v1),
                             Root := Some (insertBits H (Root smt) (keyBits k1) v1)\<rparr>"
  define tb where "tb = smt\<lparr>Leaves := (Leaves smt)(k2 \<mapsto> v2),
                             Root := Some (insertBits H (Root smt) (keyBits k2) v2)\<rparr>"
  from assms have D: "0 \<le> ?D" and l1: "k1 = [] \<or> ?D \<le> int (length k1)"
    and l2: "k2 = [] \<or> ?D \<le> int (length k2)"
    by (simp_all add: validKey_nonneg validKey_length)
  from assms have len: "length (keyBits k1) = length (keyBits k2)"
    by (simp add: keyBits_def validKey_def)
  from assms have ne: "keyBits k1 \<noteq> keyBits k2"
    using keyBits_inj by blast
  have a: "Insert H smt k1 v1 = Some (None, ta)"
    using Insert_accepts [OF D l1] assms(1) by (simp add: ta_def pathBits_validKey)
  have b: "Insert H smt k2 v2 = Some (None, tb)"
    using Insert_accepts [OF D l2] assms(2) by (simp add: tb_def pathBits_validKey)
  have Da: "0 \<le> Depth ta" "k2 = [] \<or> Depth ta \<le> int (length k2)"
    using D l2 by (simp_all add: ta_def)
  have Db: "0 \<le> Depth tb" "k1 = [] \<or> Depth tb \<le> int (length k1)"
    using D l1 by (simp_all add: tb_def)
  have ab: "Insert H ta k2 v2 =
      Some (None, smt\<lparr>Leaves := (Leaves smt)(k1 \<mapsto> v1, k2 \<mapsto> v2),
              Root := Some (insertBits H (Some (insertBits H (Root smt) (keyBits k1) v1))
                              (keyBits k2) v2)\<rparr>)"
    using Insert_accepts [OF Da] assms(2) by (simp add: ta_def pathBits_validKey)
  have ba: "Insert H tb k1 v1 =
      Some (None, smt\<lparr>Leaves := (Leaves smt)(k2 \<mapsto> v2, k1 \<mapsto> v1),
              Root := Some (insertBits H (Some (insertBits H (Root smt) (keyBits k2) v2))
                              (keyBits k1) v1)\<rparr>)"
    using Insert_accepts [OF Db] assms(1) by (simp add: tb_def pathBits_validKey)
  from assms(3) have "(Leaves smt)(k1 \<mapsto> v1, k2 \<mapsto> v2) = (Leaves smt)(k2 \<mapsto> v2, k1 \<mapsto> v1)"
    by (simp add: fun_upd_twist)
  with ab ba insertBits_commute [OF len ne, of H "Root smt" v1 v2]
  have "Insert H ta k2 v2 = Insert H tb k1 v1" by simp
  with a b ab show ?thesis by simp
qed

theorem C10_Insert_order_irrelevant_witness:
  "validKey (Depth (NewSparseMerkleTree encodeH 2)) ''01''
   \<and> validKey (Depth (NewSparseMerkleTree encodeH 2)) ''10''
   \<and> ''01'' \<noteq> ''10''
   \<and> (\<exists>ta tb t'. Insert encodeH (NewSparseMerkleTree encodeH 2) ''01'' 5 = Some (None, ta)
         \<and> Insert encodeH ta ''10'' 7 = Some (None, t')
         \<and> Insert encodeH (NewSparseMerkleTree encodeH 2) ''10'' 7 = Some (None, tb)
         \<and> Insert encodeH tb ''01'' 5 = Some (None, t'))"
proof -
  have v1: "validKey (Depth (NewSparseMerkleTree encodeH 2)) ''01''"
    and v2: "validKey (Depth (NewSparseMerkleTree encodeH 2)) ''10''"
    by (simp_all add: validKey_def NewSparseMerkleTree_def)
  have ne: "''01'' \<noteq> ''10''" by simp
  from C10_Insert_order_irrelevant [OF v1 v2 ne, of encodeH 5 7] v1 v2 ne
  show ?thesis by blast
qed

subsection \<open>A tree of depth 1 with the single key 0\<close>

lemma pathBits_key0: "pathBits ''0'' 0 1 = [False]"
  by (simp add: pathBits_def Atoi_byte_bits)

lemma Insert_key0:
  "Insert H (NewSparseMerkleTree H 1) ''0'' v =
     Some (None, \<lparr>Root = Some (MerkleNode (Some (MerkleNode None None v)) None (H [v, H [0]])),
                   Depth = 1, Leaves = [''0'' \<mapsto> v]\<rparr>)"
proof -
  have "Insert H (NewSparseMerkleTree H 1) ''0'' v =
     Some (None, (NewSparseMerkleTree H 1)\<lparr>Leaves := (Leaves (NewSparseMerkleTree H 1))(''0'' \<mapsto> v),
        Root := Some (insertBits H (Root (NewSparseMerkleTree H 1))
                        (pathBits ''0'' 0 (Depth (NewSparseMerkleTree H 1))) v)\<rparr>)"
    by (rule Insert_accepts) (simp_all add: NewSparseMerkleTree_def)
  then show ?thesis
    by (simp add: NewSparseMerkleTree_def pathBits_key0 hashChildren_def
          getHashEmptyForDepth_nonpos)
qed

lemma GenerateMerklePath_key0:
  "GenerateMerklePath H
     \<lparr>Root = Some (MerkleNode (Some (MerkleNode None None v)) None (H [v, H [0]])),
      Depth = 1, Leaves = [''0'' \<mapsto> v]\<rparr> ''0''
   = Inr (Inr [Some \<lparr>SiblingHash = H [H [0], H [0]], IsRight = True\<rparr>])"
proof -
  let ?root = "MerkleNode (Some (MerkleNode None None v)) None (H [v, H [0]])"
  let ?smt = "\<lparr>Root = Some ?root, Depth = 1, Leaves = [''0'' \<mapsto> v]\<rparr>"
  have "GenerateMerklePath H ?smt ''0''
     = Inr (Inr (map Some (rev (pathItems H ?root (pathBits ''0'' 0 (Depth ?smt)) 0))))"
    by (rule GenerateMerklePath_pathItems) simp_all
  then show ?thesis
    by (simp add: pathBits_key0 getRightChild_def getHashEmptyForDepth_pos
          getHashEmptyForDepth_nonpos)
qed

lemma VerifyMerklePath_key0:
  "snd (VerifyMerklePath H v [Some \<lparr>SiblingHash = H [H [0], H [0]], IsRight = True\<rparr>]
          (H [v, H [0]]))
   = Inr (H [v, H [H [0], H [0]]] = H [v, H [0]])"
  by (simp add: VerifyMerklePath_def Let_def)

lemma encodeH_5_1: "encodeH [5, 1] = 147"
  by (simp add: encodeH_eval)

lemma encodeH_5_39: "encodeH [5, 39] = 5026046"
  by (simp add: encodeH_eval)

lemma encodeH_0: "encodeH [0] = 1"
  by (simp add: encodeH_eval)

lemma encodeH_1_1: "encodeH [1, 1] = 39"
  by (simp add: encodeH_eval)

text \<open>
  C1 (failing input). In a new tree of depth 1, after \<open>Insert "0" 5\<close>, the path generated
  for the key \<open>"0"\<close> does not verify against the root of the tree: the sibling of the
  leaf is virtual, and the path carries \<open>getHashEmptyForDepth 1\<close> for it where the root
  was computed from \<open>getHashEmptyForDepth 0\<close>.
\<close>

theorem C1_roundtrip_fails_after_single_insert:
  "Insert encodeH (NewSparseMerkleTree encodeH 1) ''0'' 5 =
     Some (None, \<lparr>Root = Some (MerkleNode (Some (MerkleNode None None 5)) None 147),
                   Depth = 1, Leaves = [''0'' \<mapsto> 5]\<rparr>)
   \<and> GenerateMerklePath encodeH
         \<lparr>Root = Some (MerkleNode (Some (MerkleNode None None 5)) None 147),
          Depth = 1, Leaves = [''0'' \<mapsto> 5]\<rparr> ''0''
       = Inr (Inr [Some \<lparr>SiblingHash = 39, IsRight = True\<rparr>])
   \<and> snd (VerifyMerklePath encodeH 5 [Some \<lparr>SiblingHash = 39, IsRight = True\<rparr>] 147)
       = Inr False"
  using Insert_key0 [of encodeH 5] GenerateMerklePath_key0 [of encodeH 5]
    VerifyMerklePath_key0 [of encodeH 5]
  by (simp add: encodeH_0 encodeH_1_1 encodeH_5_1 encodeH_5_39)

text \<open>
  C7 (failing input). In the same tree the root's right child is virtual and stands at
  height 0, where the empty-subtree hash is \<open>getHashEmptyForDepth 0\<close>; the item of the
  path for the key \<open>"0"\<close> holds \<open>getHashEmptyForDepth 1\<close>, a different value.
\<close>

theorem C7_virtual_sibling_has_wrong_height:
  "GenerateMerklePath encodeH
     \<lparr>Root = Some (MerkleNode (Some (MerkleNode None None 5)) None 147),
      Depth = 1, Leaves = [''0'' \<mapsto> 5]\<rparr> ''0''
     = Inr (Inr [Some \<lparr>SiblingHash = getHashEmptyForDepth encodeH 1, IsRight = True\<rparr>])
   \<and> Right (MerkleNode (Some (MerkleNode None None 5)) None 147) = None
   \<and> getHashEmptyForDepth encodeH 1 = 39
   \<and> getHashEmptyForDepth encodeH (1 - 0 - 1) = 1"
  using GenerateMerklePath_key0 [of encodeH 5]
  by (simp add: encodeH_0 encodeH_1_1 encodeH_5_1 encodeH_empty0 encodeH_empty1)

subsection \<open>Strings that are not keys\<close>

lemma canonicalKey_valid:
  assumes "0 \<le> D" "key = [] \<or> D \<le> int (length key)"
  shows "validKey D (canonicalKey D key)"
proof -
  from assms have "int (length (canonicalKey D key)) = D"
    by (simp add: canonicalKey_def length_pathBits)
  moreover have "list_all (\<lambda>c. c = CHR ''0'' \<or> c = CHR ''1'')
      (map (\<lambda>b. if b then CHR ''1'' else CHR ''0'') bs)" for bs
    by (induction bs) simp_all
  then have "list_all (\<lambda>c. c = CHR ''0'' \<or> c = CHR ''1'') (canonicalKey D key)"
    by (simp add: canonicalKey_def)
  ultimately show ?thesis
    by (simp add: validKey_def)
qed

lemma keyBits_canonicalKey: "keyBits (canonicalKey D key) = pathBits key 0 D"
proof -
  have "(\<lambda>c. c = CHR ''1'') \<circ> (\<lambda>b. if b then CHR ''1'' else CHR ''0'') = (\<lambda>b. b)"
    by (rule ext) simp
  then show ?thesis
    by (simp add: keyBits_def canonicalKey_def)
qed

lemma pathBits_canonicalKey:
  assumes "0 \<le> D" "key = [] \<or> D \<le> int (length key)"
  shows "pathBits (canonicalKey D key) 0 D = pathBits key 0 D"
  using pathBits_validKey [OF canonicalKey_valid [OF assms]]
  by (simp add: keyBits_canonicalKey)

lemma length_pathItems: "length (pathItems H cur bs depth) = length bs"
  by (induction bs arbitrary: cur depth) simp_all

text \<open>
  C2 (as amended). The code validates no key. In a tree of depth \<open>D \<ge> 0\<close>:
  \<^item> \<open>Insert\<close> of a nonempty string shorter than \<open>D\<close> panics on the slice of the key,
    after the string has been recorded in \<open>Leaves\<close>, and leaves the root as it was;
  \<^item> \<open>Insert\<close> of any other string (empty, or of at least \<open>D\<close> bytes) returns normally:
    it records the string itself in \<open>Leaves\<close> and gives the tree the root that inserting
    the well-formed key \<open>canonicalKey D key\<close> gives (the first \<open>D\<close> bytes, a byte read as
    1 when it is a digit from 1 to 9 and as 0 otherwise; the empty string as all zeros);
  \<^item> \<open>GenerateMerklePath\<close> returns an error exactly for the strings with no entry in
    \<open>Leaves\<close>, and for a recorded string that is empty or has at least \<open>D\<close> bytes it
    returns a path of \<open>D\<close> items.
\<close>

theorem C2_keys_are_not_validated:
  assumes "0 \<le> Depth smt"
  shows "(key \<noteq> [] \<and> int (length key) < Depth smt \<longrightarrow>
            Insert H smt key val
              = Some (Some SliceBoundsOutOfRange, smt\<lparr>Leaves := (Leaves smt)(key \<mapsto> val)\<rparr>))
       \<and> (key = [] \<or> Depth smt \<le> int (length key) \<longrightarrow>
            validKey (Depth smt) (canonicalKey (Depth smt) key)
            \<and> (\<exists>root.
                  Insert H smt key val
                    = Some (None, smt\<lparr>Leaves := (Leaves smt)(key \<mapsto> val), Root := Some root\<rparr>)
                  \<and> Insert H smt (canonicalKey (Depth smt) key) val
                    = Some (None, smt\<lparr>Leaves := (Leaves smt)(canonicalKey (Depth smt) key \<mapsto> val),
                                     Root := Some root\<rparr>)))
       \<and> ((\<exists>e. GenerateMerklePath H smt key = Inr (Inl e)) \<longleftrightarrow> Leaves smt key = None)
       \<and> (Leaves smt key \<noteq> None \<and> Root smt \<noteq> None
            \<and> (key = [] \<or> Depth smt \<le> int (length key)) \<longrightarrow>
            (\<exists>path. GenerateMerklePath H smt key = Inr (Inr path)
               \<and> int (length path) = Depth smt))"
proof (intro conjI impI)
  assume "key \<noteq> [] \<and> int (length key) < Depth smt"
  with assms show "Insert H smt key val
      = Some (Some SliceBoundsOutOfRange, smt\<lparr>Leaves := (Leaves smt)(key \<mapsto> val)\<rparr>)"
    by (simp add: Insert_short_key)
next
  assume "key = [] \<or> Depth smt \<le> int (length key)"
  with assms show "validKey (Depth smt) (canonicalKey (Depth smt) key)"
    by (rule canonicalKey_valid)
next
  assume k: "key = [] \<or> Depth smt \<le> int (length key)"
  let ?c = "canonicalKey (Depth smt) key"
  from canonicalKey_valid [OF assms k]
  have c: "?c = [] \<or> Depth smt \<le> int (length ?c)"
    by (simp add: validKey_def)
  have "Insert H smt key val
      = Some (None, smt\<lparr>Leaves := (Leaves smt)(key \<mapsto> val),
            Root := Some (insertBits H (Root smt) (pathBits key 0 (Depth smt)) val)\<rparr>)"
    using assms k by (rule Insert_accepts)
  moreover have "Insert H smt ?c val
      = Some (None, smt\<lparr>Leaves := (Leaves smt)(?c \<mapsto> val),
            Root := Some (insertBits H (Root smt) (pathBits ?c 0 (Depth smt)) val)\<rparr>)"
    using assms c by (rule Insert_accepts)
  ultimately have "Insert H smt key val
        = Some (None, smt\<lparr>Leaves := (Leaves smt)(key \<mapsto> val),
              Root := Some (insertBits H (Root smt) (pathBits key 0 (Depth smt)) val)\<rparr>)
      \<and> Insert H smt ?c val
        = Some (None, smt\<lparr>Leaves := (Leaves smt)(?c \<mapsto> val),
              Root := Some (insertBits H (Root smt) (pathBits key 0 (Depth smt)) val)\<rparr>)"
    by (simp add: pathBits_canonicalKey [OF assms k])
  then show "\<exists>root.
      Insert H smt key val
        = Some (None, smt\<lparr>Leaves := (Leaves smt)(key \<mapsto> val), Root := Some root\<rparr>)
      \<and> Insert H smt ?c val
        = Some (None, smt\<lparr>Leaves := (Leaves smt)(?c \<mapsto> val), Root := Some root\<rparr>)"
    by (rule exI)
next
  show "(\<exists>e. GenerateMerklePath H smt key = Inr (Inl e)) \<longleftrightarrow> Leaves smt key = None"
    by (auto simp: GenerateMerklePath_def split: option.splits sum.splits)
next
  assume a: "Leaves smt key \<noteq> None \<and> Root smt \<noteq> None
      \<and> (key = [] \<or> Depth smt \<le> int (length key))"
  then obtain root where r: "Root smt = Some root" by blast
  from a have l: "Leaves smt key \<noteq> None" and k: "key = [] \<or> Depth smt \<le> int (length key)"
    by simp_all
  from GenerateMerklePath_pathItems [OF l assms r k, of H] assms k
  show "\<exists>path. GenerateMerklePath H smt key = Inr (Inr path) \<and> int (length path) = Depth smt"
    by (simp add: length_pathItems length_pathBits)
qed

lemma pathBits_a1: "pathBits ''a1'' 0 1 = [False]"
  by (simp add: pathBits_def Atoi_byte_def)

lemma canonicalKey_a1: "canonicalKey 1 ''a1'' = ''0''"
  by (simp add: canonicalKey_def pathBits_a1)

text \<open>
  C2 (counterexample). The string \<open>"a1"\<close> is not a key of a tree of depth 1: it has two
  bytes and the first is not a binary digit. \<open>Insert\<close> accepts it, records it in \<open>Leaves\<close>
  and builds the root that the key \<open>"0"\<close> gives; \<open>GenerateMerklePath\<close> then returns a
  path for it.
\<close>

theorem C2_malformed_key_is_accepted:
  "\<not> validKey 1 ''a1''
   \<and> Insert encodeH (NewSparseMerkleTree encodeH 1) ''a1'' 5 =
       Some (None, \<lparr>Root = Some (MerkleNode (Some (MerkleNode None None 5)) None 147),
                     Depth = 1, Leaves = [''a1'' \<mapsto> 5]\<rparr>)
   \<and> GenerateMerklePath encodeH
         \<lparr>Root = Some (MerkleNode (Some (MerkleNode None None 5)) None 147),
          Depth = 1, Leaves = [''a1'' \<mapsto> 5]\<rparr> ''a1''
       = Inr (Inr [Some \<lparr>SiblingHash = 39, IsRight = True\<rparr>])"
proof -
  let ?new = "NewSparseMerkleTree encodeH 1"
  let ?root = "MerkleNode (Some (MerkleNode None None 5)) None 147"
  let ?smt = "\<lparr>Root = Some ?root, Depth = 1, Leaves = [''a1'' \<mapsto> 5]\<rparr>"
  have "\<not> validKey 1 ''a1''"
    by (simp add: validKey_def)
  moreover have "Insert encodeH ?new ''a1'' 5 =
      Some (None, ?new\<lparr>Leaves := (Leaves ?new)(''a1'' \<mapsto> 5),
              Root := Some (insertBits encodeH (Root ?new) (pathBits ''a1'' 0 (Depth ?new)) 5)\<rparr>)"
    by (rule Insert_accepts) (simp_all add: NewSparseMerkleTree_def)
  then have "Insert encodeH ?new ''a1'' 5 = Some (None, ?smt)"
    by (simp add: NewSparseMerkleTree_def pathBits_a1 hashChildren_def encodeH_empty0 encodeH_5_1)
  moreover have "GenerateMerklePath encodeH ?smt ''a1''
      = Inr (Inr (map Some (rev (pathItems encodeH ?root (pathBits ''a1'' 0 (Depth ?smt)) 0))))"
    by (rule GenerateMerklePath_pathItems) simp_all
  then have "GenerateMerklePath encodeH ?smt ''a1''
      = Inr (Inr [Some \<lparr>SiblingHash = 39, IsRight = True\<rparr>])"
    by (simp add: pathBits_a1 getRightChild_def encodeH_empty1)
  ultimately show ?thesis by simp
qed

theorem C2_keys_are_not_validated_witness:
  "0 \<le> Depth (NewSparseMerkleTree encodeH 2)
   \<and> ''1'' \<noteq> [] \<and> int (length ''1'') < Depth (NewSparseMerkleTree encodeH 2)
   \<and> Insert encodeH (NewSparseMerkleTree encodeH 2) ''1'' 5
       = Some (Some SliceBoundsOutOfRange,
               (NewSparseMerkleTree encodeH 2)\<lparr>Leaves := [''1'' \<mapsto> 5]\<rparr>)
   \<and> 0 \<le> Depth (NewSparseMerkleTree encodeH 1)
   \<and> Depth (NewSparseMerkleTree encodeH 1) \<le> int (length ''a1'')
   \<and> validKey 1 ''0''
   \<and> (\<exists>root.
         Insert encodeH (NewSparseMerkleTree encodeH 1) ''a1'' 5
           = Some (None, (NewSparseMerkleTree encodeH 1)\<lparr>Leaves := [''a1'' \<mapsto> 5], Root := Some root\<rparr>)
         \<and> Insert encodeH (NewSparseMerkleTree encodeH 1) ''0'' 5
           = Some (None, (NewSparseMerkleTree encodeH 1)\<lparr>Leaves := [''0'' \<mapsto> 5], Root := Some root\<rparr>))
   \<and> Leaves \<lparr>Root = Some (MerkleNode (Some (MerkleNode None None 5)) None 147),
              Depth = 1, Leaves = [''a1'' \<mapsto> 5]\<rparr> ''a1'' \<noteq> None
   \<and> (\<exists>path. GenerateMerklePath encodeH
                 \<lparr>Root = Some (MerkleNode (Some (MerkleNode None None 5)) None 147),
                  Depth = 1, Leaves = [''a1'' \<mapsto> 5]\<rparr> ''a1'' = Inr (Inr path)
          \<and> int (length path) = 1)"
proof -
  let ?new2 = "NewSparseMerkleTree encodeH 2"
  let ?new1 = "NewSparseMerkleTree encodeH 1"
  let ?smt = "\<lparr>Root = Some (MerkleNode (Some (MerkleNode None None 5)) None 147),
               Depth = 1, Leaves = [''a1'' \<mapsto> 5]\<rparr>"
  have d2: "0 \<le> Depth ?new2" and d1: "0 \<le> Depth ?new1" and d: "0 \<le> Depth ?smt"
    by (simp_all add: NewSparseMerkleTree_def)
  have short: "''1'' \<noteq> [] \<and> int (length ''1'') < Depth ?new2"
    by (simp add: NewSparseMerkleTree_def)
  have long: "''a1'' = [] \<or> Depth ?new1 \<le> int (length ''a1'')"
    by (simp add: NewSparseMerkleTree_def)
  have rec: "Leaves ?smt ''a1'' \<noteq> None \<and> Root ?smt \<noteq> None
      \<and> (''a1'' = [] \<or> Depth ?smt \<le> int (length ''a1''))"
    by simp
  have e: "Leaves ?new2 = Map.empty" "Leaves ?new1 = Map.empty" "Depth ?new1 = 1"
    by (simp_all add: NewSparseMerkleTree_def)
  from C2_keys_are_not_validated [OF d2, of "''1''" encodeH 5] short
  have A: "Insert encodeH ?new2 ''1'' 5
      = Some (Some SliceBoundsOutOfRange, ?new2\<lparr>Leaves := [''1'' \<mapsto> 5]\<rparr>)"
    by (simp add: e)
  from C2_keys_are_not_validated [OF d1, of "''a1''" encodeH 5] long
  have B: "validKey 1 ''0'' \<and> (\<exists>root.
         Insert encodeH ?new1 ''a1'' 5
           = Some (None, ?new1\<lparr>Leaves := [''a1'' \<mapsto> 5], Root := Some root\<rparr>)
         \<and> Insert encodeH ?new1 ''0'' 5
           = Some (None, ?new1\<lparr>Leaves := [''0'' \<mapsto> 5], Root := Some root\<rparr>))"
    by (simp add: e canonicalKey_a1)
  from C2_keys_are_not_validated [OF d, of "''a1''" encodeH 5] rec
  have C: "\<exists>path. GenerateMerklePath encodeH ?smt ''a1'' = Inr (Inr path)
      \<and> int (length path) = 1"
    by simp
  from A B C d1 d2 short long rec show ?thesis
    by (simp add: e)
qed

subsection \<open>The invariant of the data model and the root commitment\<close>

lemma commitment_Some: "commitment H (Some n) h = Data n"
  by (simp add: commitment_def)

lemma commitment_None: "commitment H None h = getHashEmptyForDepth H (int h)"
  by (simp add: commitment_def)

lemma hashChildren_commitment:
  "hashChildren H l r (int (Suc h)) = H [commitment H l h, commitment H r h]"
  by (simp add: hashChildren_def commitment_def split: option.splits)

lemma wfNode_commitment:
  assumes "wfNode H node (Suc h)"
  shows "commitment H node (Suc h) =
     H [commitment H (case node of None \<Rightarrow> None | Some n \<Rightarrow> Left n) h,
        commitment H (case node of None \<Rightarrow> None | Some n \<Rightarrow> Right n) h]"
proof (cases node)
  case None
  have "getHashEmptyForDepth H (int (Suc h)) =
      H [getHashEmptyForDepth H (int (Suc h) - 1), getHashEmptyForDepth H (int (Suc h) - 1)]"
    by (rule getHashEmptyForDepth_pos) simp
  with None show ?thesis
    by (simp add: commitment_None)
next
  case (Some n)
  with assms have "Data n = hashChildren H (Left n) (Right n) (int (Suc h))"
    by simp
  with Some show ?thesis
    by (simp only: commitment_Some hashChildren_commitment option.case)
qed

lemma wfNode_children:
  assumes "wfNode H node (Suc h)"
  shows "wfNode H (case node of None \<Rightarrow> None | Some n \<Rightarrow> Left n) h"
    and "wfNode H (case node of None \<Rightarrow> None | Some n \<Rightarrow> Right n) h"
  using assms by (cases node; simp)+

lemma leafCommitment_None: "leafCommitment H None bs = getHashEmptyForDepth H 0"
  by (cases bs) (simp_all add: commitment_def)

lemma leafCommitment_Cons:
  "leafCommitment H node (b # bs) =
     leafCommitment H (if b then (case node of None \<Rightarrow> None | Some n \<Rightarrow> Right n)
                       else (case node of None \<Rightarrow> None | Some n \<Rightarrow> Left n)) bs"
  by (cases node) (simp_all add: leafCommitment_None)

lemma insertBits_Cons_commitment:
  "commitment H (Some (insertBits H node (b # bs) val)) (Suc (length bs)) =
     (let l = (case node of None \<Rightarrow> None | Some n \<Rightarrow> Left n);
          r = (case node of None \<Rightarrow> None | Some n \<Rightarrow> Right n)
      in if b then H [commitment H l (length bs),
                      commitment H (Some (insertBits H r bs val)) (length bs)]
         else H [commitment H (Some (insertBits H l bs val)) (length bs),
                 commitment H r (length bs)])"
proof -
  have "commitment H (Some (insertBits H node (b # bs) val)) (Suc (length bs))
      = Data (insertBits H node (b # bs) val)"
    by (rule commitment_Some)
  then show ?thesis
    by (simp only: insertBits.simps Let_def hashChildren_commitment MerkleNode.sel if_distrib [of Data]
          cong: if_cong)
qed

lemma commitment_insertBits:
  assumes "inj H"
  shows "wfNode H node (length bs) \<Longrightarrow>
     (commitment H (Some (insertBits H node bs val)) (length bs) = commitment H node (length bs))
       = (val = leafCommitment H node bs)"
proof (induction bs arbitrary: node)
  case Nil
  show ?case
    by (simp add: commitment_Some)
next
  case (Cons b bs)
  let ?l = "case node of None \<Rightarrow> None | Some n \<Rightarrow> Left n"
  let ?r = "case node of None \<Rightarrow> None | Some n \<Rightarrow> Right n"
  let ?h = "length bs"
  from Cons.prems have wf: "wfNode H node (Suc ?h)" by simp
  note old = wfNode_commitment [OF wf]
  note new = insertBits_Cons_commitment [of H node b bs val]
  from assms have inj2: "(H [a, c] = H [a', c']) = (a = a' \<and> c = c')" for a c a' c'
    by (simp add: inj_eq)
  have "(commitment H (Some (insertBits H node (b # bs) val)) (Suc ?h) = commitment H node (Suc ?h))
      = (if b then commitment H (Some (insertBits H ?r bs val)) ?h = commitment H ?r ?h
         else commitment H (Some (insertBits H ?l bs val)) ?h = commitment H ?l ?h)"
    unfolding old new by (simp add: Let_def inj2)
  also have "\<dots> = (if b then val = leafCommitment H ?r bs else val = leafCommitment H ?l bs)"
    using Cons.IH [OF wfNode_children(1) [OF wf]] Cons.IH [OF wfNode_children(2) [OF wf]]
    by simp
  also have "\<dots> = (val = leafCommitment H node (b # bs))"
    by (simp add: leafCommitment_Cons)
  finally show ?case by simp
qed

lemma wfNode_insertBits:
  "wfNode H node (length bs) \<Longrightarrow> wfNode H (Some (insertBits H node bs val)) (length bs)"
proof (induction bs arbitrary: node)
  case Nil
  show ?case by simp
next
  case (Cons b bs)
  from Cons.prems have wf: "wfNode H node (Suc (length bs))" by simp
  note l = Cons.IH [OF wfNode_children(1) [OF wf]]
  note r = Cons.IH [OF wfNode_children(2) [OF wf]]
  from l r wfNode_children [OF wf] show ?case
    by (cases b) (simp_all add: Let_def)
qed

lemma wfTree_NewSparseMerkleTree:
  assumes "0 \<le> D"
  shows "wfTree H (NewSparseMerkleTree H D)"
proof (cases "nat D")
  case 0
  with assms show ?thesis
    by (simp add: wfTree_def NewSparseMerkleTree_def)
next
  case (Suc h)
  with assms have D: "D = int (Suc h)" by simp
  have "getHashEmptyForDepth H (int (Suc h)) =
      H [getHashEmptyForDepth H (int (Suc h) - 1), getHashEmptyForDepth H (int (Suc h) - 1)]"
    by (rule getHashEmptyForDepth_pos) simp
  then have "getHashEmptyForDepth H D = hashChildren H None None (int (Suc h))"
    by (simp add: D hashChildren_def)
  with assms show ?thesis
    by (simp add: wfTree_def NewSparseMerkleTree_def Suc)
qed

lemma wfTree_Insert:
  assumes "wfTree H smt" "Insert H smt key val = Some (p, smt')"
  shows "wfTree H smt'"
proof (cases "key \<noteq> [] \<and> int (length key) < Depth smt")
  case True
  with assms(1) have "Insert H smt key val =
      Some (Some SliceBoundsOutOfRange, smt\<lparr>Leaves := (Leaves smt)(key \<mapsto> val)\<rparr>)"
    by (simp add: Insert_short_key wfTree_def)
  with assms show ?thesis
    by (auto simp: wfTree_def)
next
  case False
  then have k: "key = [] \<or> Depth smt \<le> int (length key)" by auto
  from assms(1) have D: "0 \<le> Depth smt" by (simp add: wfTree_def)
  from k D have len: "length (pathBits key 0 (Depth smt)) = nat (Depth smt)"
    by (simp add: length_pathBits)
  from assms(1) have "wfNode H (Root smt) (length (pathBits key 0 (Depth smt)))"
    by (simp add: wfTree_def len)
  then have "wfNode H (Some (insertBits H (Root smt) (pathBits key 0 (Depth smt)) val))
      (nat (Depth smt))"
    using wfNode_insertBits [of H "Root smt" "pathBits key 0 (Depth smt)" val]
    by (simp add: len)
  with Insert_accepts [OF D k, of H val] assms D show ?thesis
    by (auto simp: wfTree_def)
qed

lemma reachable_wfTree: "reachable H smt \<Longrightarrow> wfTree H smt"
  by (induction rule: reachable.induct)
     (auto intro: wfTree_NewSparseMerkleTree wfTree_Insert)

text \<open>The commitment at a leaf position: the value inserted there last, the value it had
  before an insertion elsewhere, and the hash of zero in a new tree.\<close>

lemma leafCommitment_insertBits_same:
  "leafCommitment H (Some (insertBits H node bs val)) bs = val"
  by (induction bs arbitrary: node) (simp_all add: Let_def commitment_Some)

lemma leafCommitment_insertBits_other:
  "length bs = length bs' \<Longrightarrow> bs \<noteq> bs' \<Longrightarrow>
     leafCommitment H (Some (insertBits H node bs' val)) bs = leafCommitment H node bs"
proof (induction bs bs' arbitrary: node rule: list_induct2)
  case Nil
  then show ?case by simp
next
  case (Cons b bs b' bs')
  show ?case
  proof (cases "b = b'")
    case True
    with Cons.prems have ne: "bs \<noteq> bs'" by simp
    from True Cons.IH [OF ne] show ?thesis
      by (cases node) (simp_all add: Let_def leafCommitment_None)
  next
    case False
    then show ?thesis
      by (cases node; cases b; cases b') (simp_all add: Let_def leafCommitment_None)
  qed
qed

lemma leafCommitment_NewSparseMerkleTree:
  assumes "0 \<le> D" "length bs = nat D"
  shows "leafCommitment H (Root (NewSparseMerkleTree H D)) bs = getHashEmptyForDepth H 0"
proof (cases bs)
  case Nil
  with assms have "D = 0" by simp
  with Nil show ?thesis
    by (simp add: NewSparseMerkleTree_def commitment_Some)
next
  case (Cons b bs')
  then show ?thesis
    by (simp add: NewSparseMerkleTree_def leafCommitment_None)
qed

lemma commitment_insertBits_same:
  "wfNode H node (length bs) \<Longrightarrow> val = leafCommitment H node bs \<Longrightarrow>
     commitment H (Some (insertBits H node bs val)) (length bs) = commitment H node (length bs)"
proof (induction bs arbitrary: node)
  case Nil
  then show ?case
    by (simp add: commitment_Some)
next
  case (Cons b bs)
  let ?l = "case node of None \<Rightarrow> None | Some n \<Rightarrow> Left n"
  let ?r = "case node of None \<Rightarrow> None | Some n \<Rightarrow> Right n"
  from Cons.prems(1) have wf: "wfNode H node (Suc (length bs))" by simp
  note old = wfNode_commitment [OF wf]
  note new = insertBits_Cons_commitment [of H node b bs val]
  from Cons.prems(2) have leaf: "val = leafCommitment H (if b then ?r else ?l) bs"
    by (simp only: leafCommitment_Cons)
  show ?case
  proof (cases b)
    case True
    with leaf have "val = leafCommitment H ?r bs" by simp
    with Cons.IH [OF wfNode_children(2) [OF wf]]
    have "commitment H (Some (insertBits H ?r bs val)) (length bs) = commitment H ?r (length bs)" .
    with True show ?thesis
      unfolding length_Cons old new by (simp add: Let_def)
  next
    case False
    with leaf have "val = leafCommitment H ?l bs" by simp
    with Cons.IH [OF wfNode_children(1) [OF wf]]
    have "commitment H (Some (insertBits H ?l bs val)) (length bs) = commitment H ?l (length bs)" .
    with False show ?thesis
      unfolding length_Cons old new by (simp add: Let_def)
  qed
qed

text \<open>
  C9 (as amended). Inserting a value under a key \<open>k1\<close> of the tree's depth returns
  normally, in any tree and for any hash, and leaves the entry of \<open>Leaves\<close> for every
  other key \<open>k2\<close> as it was. The root commitment need not change: in a tree that
  satisfies the invariant of the data model it stays the same when the value equals the
  commitment that the leaf position of \<open>k1\<close> held before (the value inserted there
  last, or the hash of zero when the position was never written), whatever the hash;
  it changes when the value differs from that commitment and the hash is collision-free.
\<close>

theorem C9_Insert_frame_and_root:
  assumes "validKey (Depth smt) k1" "k1 \<noteq> k2"
  shows "\<exists>smt' root'.
           Insert H smt k1 v1 = Some (None, smt')
           \<and> Root smt' = Some root'
           \<and> Leaves smt' k2 = Leaves smt k2
           \<and> (\<forall>root. wfTree H smt \<and> Root smt = Some root \<longrightarrow>
                 (v1 = leafCommitment H (Root smt) (keyBits k1) \<longrightarrow> Data root' = Data root)
                 \<and> (inj H \<and> v1 \<noteq> leafCommitment H (Root smt) (keyBits k1) \<longrightarrow>
                       Data root' \<noteq> Data root))"
proof -
  let ?D = "Depth smt"
  let ?bs = "keyBits k1"
  let ?root' = "insertBits H (Root smt) ?bs v1"
  let ?smt' = "smt\<lparr>Leaves := (Leaves smt)(k1 \<mapsto> v1), Root := Some ?root'\<rparr>"
  from assms(1) have D: "0 \<le> ?D" and k: "k1 = [] \<or> ?D \<le> int (length k1)"
    by (simp_all add: validKey_nonneg validKey_length)
  from assms(1) have len: "length ?bs = nat ?D"
    by (simp add: keyBits_def validKey_nat)
  from Insert_accepts [OF D k, of H v1] assms(1)
  have ins: "Insert H smt k1 v1 = Some (None, ?smt')"
    by (simp add: pathBits_validKey)
  from assms(2) have fr: "Leaves ?smt' k2 = Leaves smt k2"
    by simp
  have same: "Data ?root' = Data root"
    if "wfTree H smt" "Root smt = Some root" "v1 = leafCommitment H (Root smt) ?bs" for root
  proof -
    from that(1) have "wfNode H (Root smt) (length ?bs)"
      by (simp add: wfTree_def len)
    from commitment_insertBits_same [OF this that(3)] that(2) show ?thesis
      by (simp add: commitment_Some)
  qed
  have differ: "Data ?root' \<noteq> Data root"
    if "wfTree H smt" "Root smt = Some root" "inj H" "v1 \<noteq> leafCommitment H (Root smt) ?bs"
    for root
  proof -
    from that(1) have "wfNode H (Root smt) (length ?bs)"
      by (simp add: wfTree_def len)
    from commitment_insertBits [OF that(3) this, of v1] that(2,4) show ?thesis
      by (simp add: commitment_Some)
  qed
  from same differ have root: "\<forall>root. wfTree H smt \<and> Root smt = Some root \<longrightarrow>
      (v1 = leafCommitment H (Root smt) ?bs \<longrightarrow> Data ?root' = Data root)
      \<and> (inj H \<and> v1 \<noteq> leafCommitment H (Root smt) ?bs \<longrightarrow> Data ?root' \<noteq> Data root)"
    by blast
  from ins fr root show ?thesis
    by (intro exI [of _ ?smt'] exI [of _ ?root']) simp
qed

lemma encodeH_1_7: "encodeH [1, 7] = 7506"
  by (simp add: encodeH_eval)

lemma encodeH_5_7: "encodeH [5, 7] = 8526"
  by (simp add: encodeH_eval)

lemma pathBits_key1: "pathBits ''1'' 0 1 = [True]"
  by (simp add: pathBits_def Atoi_byte_bits)

lemma Insert_key1_then_key0:
  "Insert encodeH (NewSparseMerkleTree encodeH 1) ''1'' 7 =
     Some (None, \<lparr>Root = Some (MerkleNode None (Some (MerkleNode None None 7)) 7506),
                   Depth = 1, Leaves = [''1'' \<mapsto> 7]\<rparr>)"
  "Insert encodeH \<lparr>Root = Some (MerkleNode None (Some (MerkleNode None None 7)) 7506),
                   Depth = 1, Leaves = [''1'' \<mapsto> 7]\<rparr> ''0'' v =
     Some (None, \<lparr>Root = Some (MerkleNode (Some (MerkleNode None None v))
                                  (Some (MerkleNode None None 7)) (encodeH [v, 7])),
                   Depth = 1, Leaves = [''1'' \<mapsto> 7, ''0'' \<mapsto> v]\<rparr>)"
proof -
  let ?new = "NewSparseMerkleTree encodeH 1"
  let ?smt = "\<lparr>Root = Some (MerkleNode None (Some (MerkleNode None None 7)) 7506),
               Depth = 1, Leaves = [''1'' \<mapsto> 7]\<rparr>"
  have "Insert encodeH ?new ''1'' 7 =
      Some (None, ?new\<lparr>Leaves := (Leaves ?new)(''1'' \<mapsto> 7),
              Root := Some (insertBits encodeH (Root ?new) (pathBits ''1'' 0 (Depth ?new)) 7)\<rparr>)"
    by (rule Insert_accepts) (simp_all add: NewSparseMerkleTree_def)
  then show "Insert encodeH ?new ''1'' 7 = Some (None, ?smt)"
    by (simp add: NewSparseMerkleTree_def pathBits_key1 hashChildren_def encodeH_empty0 encodeH_1_7)
  have "Insert encodeH ?smt ''0'' v =
      Some (None, ?smt\<lparr>Leaves := (Leaves ?smt)(''0'' \<mapsto> v),
              Root := Some (insertBits encodeH (Root ?smt) (pathBits ''0'' 0 (Depth ?smt)) v)\<rparr>)"
    by (rule Insert_accepts) simp_all
  then show "Insert encodeH ?smt ''0'' v =
     Some (None, \<lparr>Root = Some (MerkleNode (Some (MerkleNode None None v))
                                  (Some (MerkleNode None None 7)) (encodeH [v, 7])),
                   Depth = 1, Leaves = [''1'' \<mapsto> 7, ''0'' \<mapsto> v]\<rparr>)"
    by (simp add: pathBits_key0 hashChildren_def)
qed

text \<open>
  C9 (counterexample). In a tree of depth 1 where the key \<open>"1"\<close> was inserted with the
  value 7, inserting under the distinct key \<open>"0"\<close> the value \<open>encodeH [0] = 1\<close>, which is
  the commitment of an absent leaf, keeps the entry of \<open>"1"\<close> and leaves the root
  commitment unchanged.
\<close>

theorem C9_root_unchanged_by_insert:
  "''0'' \<noteq> ''1''
   \<and> validKey 1 ''0'' \<and> validKey 1 ''1''
   \<and> Insert encodeH (NewSparseMerkleTree encodeH 1) ''1'' 7 =
       Some (None, \<lparr>Root = Some (MerkleNode None (Some (MerkleNode None None 7)) 7506),
                     Depth = 1, Leaves = [''1'' \<mapsto> 7]\<rparr>)
   \<and> Insert encodeH \<lparr>Root = Some (MerkleNode None (Some (MerkleNode None None 7)) 7506),
                       Depth = 1, Leaves = [''1'' \<mapsto> 7]\<rparr> ''0'' 1 =
       Some (None, \<lparr>Root = Some (MerkleNode (Some (MerkleNode None None 1))
                                    (Some (MerkleNode None None 7)) 7506),
                     Depth = 1, Leaves = [''1'' \<mapsto> 7, ''0'' \<mapsto> 1]\<rparr>)
   \<and> Data (MerkleNode (Some (MerkleNode None None 1)) (Some (MerkleNode None None 7)) 7506)
       = Data (MerkleNode None (Some (MerkleNode None None 7)) 7506)"
  using Insert_key1_then_key0 (1) Insert_key1_then_key0 (2) [of 1]
  by (simp add: validKey_def encodeH_1_7)

theorem C9_Insert_frame_and_root_witness:
  "validKey 1 ''0'' \<and> ''0'' \<noteq> ''1''
   \<and> inj encodeH
   \<and> wfTree encodeH \<lparr>Root = Some (MerkleNode None (Some (MerkleNode None None 7)) 7506),
                      Depth = 1, Leaves = [''1'' \<mapsto> 7]\<rparr>
   \<and> leafCommitment encodeH (Some (MerkleNode None (Some (MerkleNode None None 7)) 7506))
         (keyBits ''0'') = 1
   \<and> (\<exists>smt' root'.
         Insert encodeH \<lparr>Root = Some (MerkleNode None (Some (MerkleNode None None 7)) 7506),
                         Depth = 1, Leaves = [''1'' \<mapsto> 7]\<rparr> ''0'' 1 = Some (None, smt')
         \<and> Root smt' = Some root'
         \<and> Leaves smt' ''1'' = Some 7
         \<and> Data root' = 7506)
   \<and> (\<exists>smt' root'.
         Insert encodeH \<lparr>Root = Some (MerkleNode None (Some (MerkleNode None None 7)) 7506),
                         Depth = 1, Leaves = [''1'' \<mapsto> 7]\<rparr> ''0'' 5 = Some (None, smt')
         \<and> Root smt' = Some root'
         \<and> Leaves smt' ''1'' = Some 7
         \<and> Data root' \<noteq> 7506)"
proof -
  let ?root = "MerkleNode None (Some (MerkleNode None None 7)) 7506"
  let ?smt = "\<lparr>Root = Some ?root, Depth = 1, Leaves = [''1'' \<mapsto> 7]\<rparr>"
  have wf: "wfTree encodeH ?smt"
    by (simp add: wfTree_def hashChildren_def encodeH_empty0 encodeH_1_7)
  have v: "validKey (Depth ?smt) ''0''"
    by (simp add: validKey_def)
  have ne: "''0'' \<noteq> ''1''" by simp
  have leaf: "leafCommitment encodeH (Root ?smt) (keyBits ''0'') = 1"
    by (simp add: keyBits_def commitment_None encodeH_empty0)
  have r: "Root ?smt = Some ?root" by simp
  from C9_Insert_frame_and_root [OF v ne, of encodeH 1]
  obtain smt1 root1 where a: "Insert encodeH ?smt ''0'' 1 = Some (None, smt1)"
    "Root smt1 = Some root1" "Leaves smt1 ''1'' = Leaves ?smt ''1''"
    and a': "\<forall>root. wfTree encodeH ?smt \<and> Root ?smt = Some root \<longrightarrow>
      (1 = leafCommitment encodeH (Root ?smt) (keyBits ''0'') \<longrightarrow> Data root1 = Data root)
      \<and> (inj encodeH \<and> 1 \<noteq> leafCommitment encodeH (Root ?smt) (keyBits ''0'') \<longrightarrow>
            Data root1 \<noteq> Data root)"
    by blast
  from a' wf r leaf have "Data root1 = Data ?root" by metis
  with a have A: "\<exists>smt' root'. Insert encodeH ?smt ''0'' 1 = Some (None, smt')
      \<and> Root smt' = Some root' \<and> Leaves smt' ''1'' = Some 7 \<and> Data root' = 7506"
    by simp
  from C9_Insert_frame_and_root [OF v ne, of encodeH 5]
  obtain smt5 root5 where b: "Insert encodeH ?smt ''0'' 5 = Some (None, smt5)"
    "Root smt5 = Some root5" "Leaves smt5 ''1'' = Leaves ?smt ''1''"
    and b': "\<forall>root. wfTree encodeH ?smt \<and> Root ?smt = Some root \<longrightarrow>
      (5 = leafCommitment encodeH (Root ?smt) (keyBits ''0'') \<longrightarrow> Data root5 = Data root)
      \<and> (inj encodeH \<and> 5 \<noteq> leafCommitment encodeH (Root ?smt) (keyBits ''0'') \<longrightarrow>
            Data root5 \<noteq> Data root)"
    by blast
  have "(5::int) \<noteq> leafCommitment encodeH (Root ?smt) (keyBits ''0'')"
    by (simp only: leaf)
  with b' wf r encodeH_inj have "Data root5 \<noteq> Data ?root" by metis
  with b have B: "\<exists>smt' root'. Insert encodeH ?smt ''0'' 5 = Some (None, smt')
      \<and> Root smt' = Some root' \<and> Leaves smt' ''1'' = Some 7 \<and> Data root' \<noteq> 7506"
    by simp
  from leaf have leaf': "leafCommitment encodeH (Some ?root) (keyBits ''0'') = 1" by simp
  from v ne encodeH_inj wf leaf' A B show ?thesis
    by simp
qed

subsection \<open>When the round trip holds, and when it cannot\<close>

lemma nodeAt_None: "nodeAt None bs = Some n \<Longrightarrow> False"
  by (cases bs) simp_all

lemma verifyStep_item:
  "verifyStep H current \<lparr>SiblingHash = s, IsRight = True\<rparr> = H [current, s]"
  "verifyStep H current \<lparr>SiblingHash = s, IsRight = False\<rparr> = H [s, current]"
  by (simp_all add: verifyStep_def)

lemma verify_pathItems_materialized:
  "wfNode H (Some cur) (length bs) \<Longrightarrow> siblingsMaterialized (Some cur) bs \<Longrightarrow>
   nodeAt (Some cur) bs = Some leaf \<Longrightarrow>
     foldl (verifyStep H) (Data leaf) (rev (pathItems H cur bs depth)) = Data cur"
proof (induction bs arbitrary: cur depth)
  case Nil
  then show ?case by simp
next
  case (Cons b bs)
  from Cons.prems(1) have data: "Data cur = hashChildren H (Left cur) (Right cur) (int (Suc (length bs)))"
    and wl: "wfNode H (Left cur) (length bs)" and wr: "wfNode H (Right cur) (length bs)"
    by simp_all
  show ?case
  proof (cases b)
    case True
    with Cons.prems(2) obtain s where s: "Left cur = Some s"
      and m: "siblingsMaterialized (Right cur) bs"
      by auto
    from True Cons.prems(3) have at: "nodeAt (Right cur) bs = Some leaf" by simp
    then obtain c where c: "Right cur = Some c"
      using nodeAt_None by (cases "Right cur") auto
    from wr m at have "foldl (verifyStep H) (Data leaf) (rev (pathItems H c bs (depth + 1))) = Data c"
      unfolding c by (rule Cons.IH)
    with True show ?thesis
      by (simp add: getLeftChild_def getRightChild_def s c data hashChildren_def verifyStep_item)
  next
    case False
    with Cons.prems(2) obtain s where s: "Right cur = Some s"
      and m: "siblingsMaterialized (Left cur) bs"
      by auto
    from False Cons.prems(3) have at: "nodeAt (Left cur) bs = Some leaf" by simp
    then obtain c where c: "Left cur = Some c"
      using nodeAt_None by (cases "Left cur") auto
    from wl m at have "foldl (verifyStep H) (Data leaf) (rev (pathItems H c bs (depth + 1))) = Data c"
      unfolding c by (rule Cons.IH)
    with False show ?thesis
      by (simp add: getLeftChild_def getRightChild_def s c data hashChildren_def verifyStep_item)
  qed
qed

text \<open>
  In a tree that satisfies the invariant, the path generated for a recorded key verifies
  against the root when the walk along the key ends in a leaf holding the value and
  every sibling on the way is materialized, as in the fully populated trees of the
  repository's tests.
\<close>

lemma roundtrip_when_siblings_materialized:
  assumes "wfTree H smt" "validKey (Depth smt) key" "Leaves smt key \<noteq> None"
    "Root smt = Some root" "siblingsMaterialized (Root smt) (keyBits key)"
    "nodeAt (Root smt) (keyBits key) = Some leaf"
  shows "\<exists>items. GenerateMerklePath H smt key = Inr (Inr (map Some items))
           \<and> snd (VerifyMerklePath H (Data leaf) (map Some items) (Data root)) = Inr True"
proof -
  let ?items = "rev (pathItems H root (keyBits key) 0)"
  from assms(2) have D: "0 \<le> Depth smt" and k: "key = [] \<or> Depth smt \<le> int (length key)"
    by (simp_all add: validKey_nonneg validKey_length)
  from assms(2) have len: "length (keyBits key) = nat (Depth smt)"
    by (simp add: keyBits_def validKey_nat)
  from GenerateMerklePath_pathItems [OF assms(3) D assms(4) k, of H]
  have gen: "GenerateMerklePath H smt key = Inr (Inr (map Some ?items))"
    by (simp add: pathBits_validKey [OF assms(2)])
  from assms(1) have "wfNode H (Some root) (length (keyBits key))"
    by (simp add: wfTree_def len assms(4))
  with assms(5,6) have "foldl (verifyStep H) (Data leaf) ?items = Data root"
    unfolding assms(4) by (intro verify_pathItems_materialized)
  moreover obtain out r where l: "VerifyMerklePath_loop H (map Some ?items) (Data leaf) [] = (out, r)"
    by (cases "VerifyMerklePath_loop H (map Some ?items) (Data leaf) []")
  moreover from l VerifyMerklePath_loop_items [of H ?items "Data leaf" "[]"]
  have "r = Inr (foldl (verifyStep H) (Data leaf) ?items)" by simp
  ultimately have "snd (VerifyMerklePath H (Data leaf) (map Some ?items) (Data root)) = Inr True"
    by (simp add: VerifyMerklePath_def)
  with gen show ?thesis by blast
qed

text \<open>
  With any collision-free hash, the path of the only key of a tree of depth 1 fails to
  verify: the two hashes compared differ in an argument.
\<close>

lemma roundtrip_key0_fails_collision_free:
  assumes "inj H"
  shows "snd (VerifyMerklePath H v [Some \<lparr>SiblingHash = H [H [0], H [0]], IsRight = True\<rparr>]
                (H [v, H [0]])) = Inr False"
proof -
  from assms have "H [H [0], H [0]] \<noteq> H [0]"
    by (simp add: inj_eq)
  with assms have "H [v, H [H [0], H [0]]] \<noteq> H [v, H [0]]"
    by (simp add: inj_eq)
  then show ?thesis
    by (simp add: VerifyMerklePath_key0)
qed

end
